theory Spec2Isabelle
  imports Complex_Main "HOL-Library.Word"
begin

unbundle bit_operations_syntax

text \<open>
  A model of the trackball firmware: the button debouncer of \<^verbatim>\<open>usb.c\<close>, the sensor bus,
  bring-up and motion poll of \<^verbatim>\<open>main.c\<close> and the axis accumulators of \<^verbatim>\<open>axes.c\<close>, with
  the properties proved of them. The model comes first, the properties after it.
\<close>

section \<open>Machine types and configuration\<close>

text \<open>
  The firmware targets an 8-bit AVR: \<^verbatim>\<open>uint8_t\<close> is an 8-bit word, \<^verbatim>\<open>int\<close>,
  \<^verbatim>\<open>int16_t\<close>, \<^verbatim>\<open>unsigned int\<close>, \<^verbatim>\<open>uint16_t\<close> and \<^verbatim>\<open>size_t\<close> are 16-bit words,
  and multi-byte objects are stored low byte first.
\<close>

type_synonym u8 = "8 word"
type_synonym u16 = "16 word"
type_synonym i16 = "16 word"

text \<open>Pin numbers of port D, as \<^verbatim>\<open>avr/io.h\<close> numbers them.\<close>

definition PIND1 :: nat where "PIND1 = 1"
definition PIND2 :: nat where "PIND2 = 2"
definition PIND3 :: nat where "PIND3 = 3"
definition PIND4 :: nat where "PIND4 = 4"
definition PIND5 :: nat where "PIND5 = 5"

text \<open>\<^verbatim>\<open>config.h\<close>: the button wiring and the debounce interval.\<close>

definition BUTTON_A :: nat where "BUTTON_A = PIND4"
definition BUTTON_B :: nat where "BUTTON_B = PIND5"
definition BUTTON_C :: nat where "BUTTON_C = PIND2"
definition BUTTON_D :: nat where "BUTTON_D = PIND3"
definition BUTTON_E :: nat where "BUTTON_E = PIND1"

definition BUTTONS :: "nat list" where
  "BUTTONS = [BUTTON_C, BUTTON_B, BUTTON_A, BUTTON_E]"

definition SCROLL_BUTTON :: nat where "SCROLL_BUTTON = BUTTON_D"

definition DEBOUNCE_INTERVAL :: int where "DEBOUNCE_INTERVAL = 5"

section \<open>Button debouncer (\<^verbatim>\<open>CALLBACK_HID_Device_CreateHIDReport\<close>, mouse branch)\<close>

text \<open>
  The three \<^verbatim>\<open>static uint8_t\<close> variables of the callback. C initialises them to zero.
\<close>

record debounce_state =
  old_buttons :: u8
  new_buttons :: u8
  debounce_count :: u8

definition debounce_init :: debounce_state where
  "debounce_init = \<lparr>old_buttons = 0, new_buttons = 0, debounce_count = 0\<rparr>"

text \<open>
  The loop that samples the pins: bit \<open>i\<close> of the mask is set when pin \<open>buttons[i]\<close>
  of \<^verbatim>\<open>PIND\<close> reads low. The loop reads the port once for every button; the model
  takes one value of the port for the four reads of a poll.
\<close>

fun read_buttons_from :: "nat \<Rightarrow> nat list \<Rightarrow> u8 \<Rightarrow> u8 \<Rightarrow> u8" where
  "read_buttons_from i [] pind b = b"
| "read_buttons_from i (pin # pins) pind b =
     read_buttons_from (Suc i) pins pind
       (b OR push_bit i (if pind AND push_bit pin 1 = 0 then 1 else 0))"

definition read_buttons :: "u8 \<Rightarrow> u8" where
  "read_buttons pind = read_buttons_from 0 BUTTONS pind 0"

text \<open>
  The debounce step, lines 582 to 607 of \<^verbatim>\<open>usb.c\<close>. The arguments are the threshold
  (the macro \<^verbatim>\<open>DEBOUNCE_INTERVAL\<close>, an \<^verbatim>\<open>int\<close> constant), the sampled mask \<open>b\<close> and the
  state. The result is the mask left in \<^verbatim>\<open>p->buttons\<close> (set to \<^verbatim>\<open>old_buttons\<close> before the
  step), whether the step took the early \<^verbatim>\<open>return true\<close>, and the new state.
  The counter is a \<^verbatim>\<open>uint8_t\<close>: \<^verbatim>\<open>+= 1\<close> wraps at 256, and the comparison with the
  threshold is made on the promoted \<^verbatim>\<open>int\<close> values.
\<close>

definition debounce :: "int \<Rightarrow> u8 \<Rightarrow> debounce_state \<Rightarrow> u8 \<times> bool \<times> debounce_state" where
  "debounce T b s =
     (if debounce_count s = 0 then
        (if b \<noteq> old_buttons s
         then (old_buttons s, False, s\<lparr>new_buttons := b, debounce_count := 1\<rparr>)
         else (old_buttons s, False, s))
      else
        (let c = (if b = new_buttons s then debounce_count s + 1 else 1) in
         if uint c > T
         then (new_buttons s, True, s\<lparr>old_buttons := new_buttons s, debounce_count := 0\<rparr>)
         else (old_buttons s, False, s\<lparr>debounce_count := c\<rparr>)))"

text \<open>
  A run of polls: the mask reported and the acceptance flag of every poll, in order.
\<close>

fun debounce_run :: "int \<Rightarrow> debounce_state \<Rightarrow> u8 list \<Rightarrow> (u8 \<times> bool) list" where
  "debounce_run T s [] = []"
| "debounce_run T s (b # bs) =
     (case debounce T b s of (m, ch, s') \<Rightarrow> (m, ch) # debounce_run T s' bs)"

text \<open>The state after a run of polls.\<close>

fun debounce_after :: "int \<Rightarrow> debounce_state \<Rightarrow> u8 list \<Rightarrow> debounce_state" where
  "debounce_after T s [] = s"
| "debounce_after T s (b # bs) = debounce_after T (snd (snd (debounce T b s))) bs"

text \<open>A raw mask that takes the values \<open>x\<close>, \<open>y\<close>, \<open>x\<close>, \<open>y\<close>, ... on \<open>n\<close> polls.\<close>

fun oscillate :: "u8 \<Rightarrow> u8 \<Rightarrow> nat \<Rightarrow> u8 list" where
  "oscillate x y 0 = []"
| "oscillate x y (Suc n) = x # oscillate y x n"

text \<open>
  A value is held for \<open>k\<close> consecutive polls in a sequence of samples when some sample
  starts a run of at least \<open>k\<close> equal samples.
\<close>

fun held :: "nat \<Rightarrow> 'a list \<Rightarrow> bool" where
  "held k [] \<longleftrightarrow> k = 0"
| "held k (x # xs) \<longleftrightarrow> k \<le> length (takeWhile (\<lambda>y. y = x) (x # xs)) \<or> held k xs"

text \<open>
  What the debouncer keeps true while successive samples differ: the counter is at most
  two, and it is two only when the candidate is the sample just seen. \<open>prev\<close> is the
  previous sample.
\<close>

definition bounce_inv :: "debounce_state \<Rightarrow> u8 \<Rightarrow> bool" where
  "bounce_inv s prev \<longleftrightarrow>
     debounce_count s = 0 \<or> debounce_count s = 1 \<or>
     (debounce_count s = 2 \<and> new_buttons s = prev)"

section \<open>Sensor bus (\<^verbatim>\<open>main.c\<close>)\<close>

text \<open>
  What the firmware does to the bus is recorded as a trace of events: the chip-select
  line pulled low or released, a busy-wait of \<^verbatim>\<open>_delay_us\<close> or \<^verbatim>\<open>_delay_ms\<close> with its
  argument, and the exchange of one byte with the byte sent.
\<close>

datatype event = NCS_low | NCS_high | Delay_us rat | Delay_ms rat | Xfer u8

text \<open>
  The sensor on the other side of the bus is not part of the firmware. It is a
  parameter: a state of any type, how the state reacts to the chip-select line, and the
  byte it shifts out in an exchange.
\<close>

record 'd sensor =
  on_select :: "'d \<Rightarrow> 'd"
  on_deselect :: "'d \<Rightarrow> 'd"
  on_byte :: "u8 \<Rightarrow> 'd \<Rightarrow> u8 \<times> 'd"

record 'd spi =
  trace :: "event list"
  dev :: 'd

text \<open>The timing constants, in microseconds.\<close>

definition T_STDWN :: rat where "T_STDWN = 5 / 10"
definition T_WAKEUP :: rat where "T_WAKEUP = 50000"
definition T_SRAD :: rat where "T_SRAD = 160"
definition T_SWWR :: rat where "T_SWWR = 180"
definition T_SRWR :: rat where "T_SRWR = 20"
definition T_SRAD_MOTBR :: rat where "T_SRAD_MOTBR = 35"
definition T_NCS_SCLK :: rat where "T_NCS_SCLK = 12 / 100"
definition T_SCLK_NCS_READ :: rat where "T_SCLK_NCS_READ = 12 / 100"
definition T_SCLK_NCS_WRITE :: rat where "T_SCLK_NCS_WRITE = 35"

text \<open>The register addresses.\<close>

definition RESOLUTION_L :: u8 where "RESOLUTION_L = 0x0e"
definition RESOLUTION_H :: u8 where "RESOLUTION_H = 0x0f"
definition CONFIG2 :: u8 where "CONFIG2 = 0x10"
definition ANGLE_TUNE :: u8 where "ANGLE_TUNE = 0x11"
definition SROM_ENABLE :: u8 where "SROM_ENABLE = 0x13"
definition SROM_ID :: u8 where "SROM_ID = 0x2a"
definition POWER_UP_RESET :: u8 where "POWER_UP_RESET = 0x3a"
definition SHUTDOWN :: u8 where "SHUTDOWN = 0x3b"
definition MOTION_BURST :: u8 where "MOTION_BURST = 0x50"
definition SROM_LOAD_BURST :: u8 where "SROM_LOAD_BURST = 0x62"

text \<open>\<^verbatim>\<open>config.h\<close>: the rotation written to the angle register, \<open>-22\<close> as a byte.\<close>

definition POINTER_ROTATION :: u8 where "POINTER_ROTATION = - 22"

text \<open>
  \<^verbatim>\<open>transceive\<close> writes the byte to the data register, waits for the transfer flag and
  reads the byte received. The hardware completes every transfer, so the wait is not
  modelled.
\<close>

definition transceive :: "'d sensor \<Rightarrow> u8 \<Rightarrow> 'd spi \<Rightarrow> u8 \<times> 'd spi" where
  "transceive sn c s =
     (case on_byte sn c (dev s) of
        (r, d) \<Rightarrow> (r, s\<lparr>trace := trace s @ [Xfer c], dev := d\<rparr>))"

definition assert_ncs :: "'d sensor \<Rightarrow> 'd spi \<Rightarrow> 'd spi" where
  "assert_ncs sn s = s\<lparr>trace := trace s @ [NCS_low], dev := on_select sn (dev s)\<rparr>"

definition deassert_ncs :: "'d sensor \<Rightarrow> 'd spi \<Rightarrow> 'd spi" where
  "deassert_ncs sn s = s\<lparr>trace := trace s @ [NCS_high], dev := on_deselect sn (dev s)\<rparr>"

definition delay_us :: "rat \<Rightarrow> 'd spi \<Rightarrow> 'd spi" where
  "delay_us t s = s\<lparr>trace := trace s @ [Delay_us t]\<rparr>"

definition delay_ms :: "rat \<Rightarrow> 'd spi \<Rightarrow> 'd spi" where
  "delay_ms t s = s\<lparr>trace := trace s @ [Delay_ms t]\<rparr>"

definition read :: "'d sensor \<Rightarrow> u8 \<Rightarrow> 'd spi \<Rightarrow> u8 \<times> 'd spi" where
  "read sn addr s =
     (let s1 = delay_us T_NCS_SCLK (assert_ncs sn s);
          s2 = snd (transceive sn addr s1);
          s3 = delay_us T_SRAD s2;
          (x, s4) = transceive sn 0 s3;
          s5 = deassert_ncs sn (delay_us T_SCLK_NCS_READ s4)
      in (x, delay_us (T_SRWR - T_SCLK_NCS_READ) s5))"

text \<open>\<^verbatim>\<open>write\<close> of the source; the name is taken in Isabelle.\<close>

definition write_reg :: "'d sensor \<Rightarrow> u8 \<Rightarrow> u8 \<Rightarrow> 'd spi \<Rightarrow> 'd spi" where
  "write_reg sn addr data s =
     (let s1 = delay_us T_NCS_SCLK (assert_ncs sn s);
          s2 = snd (transceive sn (addr OR 0x80) s1);
          s3 = snd (transceive sn data s2);
          s4 = deassert_ncs sn (delay_us T_SCLK_NCS_WRITE s3)
      in delay_us (T_SWWR - T_SCLK_NCS_WRITE) s4)"

subsection \<open>Bring-up: \<^verbatim>\<open>reset\<close>\<close>

text \<open>
  The firmware image \<^verbatim>\<open>srom_data\<close> comes from \<^verbatim>\<open>srom.h\<close>, which is not among the
  sources: it is a parameter. The loop counter is an \<^verbatim>\<open>unsigned int\<close> and the bound
  \<^verbatim>\<open>sizeof(srom_data) / sizeof(srom_data[0])\<close> a \<^verbatim>\<open>size_t\<close>, both 16 bits wide.
\<close>

lemma unat_succ_below:
  fixes i n :: "'a::len word"
  assumes "i < n"
  shows "unat (i + 1) = Suc (unat i)"
proof -
  have "unat i < unat n" using assms by (simp add: word_less_nat_alt)
  moreover have "unat n < 2 ^ LENGTH('a)" by (rule unsigned_less)
  ultimately have "unat i + 1 < (2::nat) ^ LENGTH('a)" by linarith
  then have "unat i + unat (1 :: 'a word) < 2 ^ LENGTH('a)" by simp
  then have "unat (i + 1) = unat i + unat (1 :: 'a word)"
    by (simp only: unat_add_lem)
  then show ?thesis by simp
qed

function srom_loop :: "'d sensor \<Rightarrow> u8 list \<Rightarrow> u16 \<Rightarrow> 'd spi \<Rightarrow> 'd spi" where
  "srom_loop sn srom_data i s =
     (if i < of_nat (length srom_data)
      then srom_loop sn srom_data (i + 1)
             (snd (transceive sn (srom_data ! unat i) (delay_us 15 s)))
      else s)"
  by pat_completeness auto
termination
proof (relation "measure (\<lambda>(sn, srom_data, i, s). unat (of_nat (length srom_data) :: u16) - unat i)")
  show "wf (measure (\<lambda>(sn :: 'd sensor, srom_data :: u8 list, i :: u16, s :: 'd spi).
          unat (of_nat (length srom_data) :: u16) - unat i))"
    by simp
next
  fix sn :: "'d sensor" and srom_data :: "u8 list" and i :: u16 and s :: "'d spi"
  assume lt: "i < of_nat (length srom_data)"
  then have "unat (i + 1) = Suc (unat i)"
    by (rule unat_succ_below)
  moreover have "unat i < unat (of_nat (length srom_data) :: u16)"
    using lt by (simp add: word_less_nat_alt)
  ultimately show "((sn, srom_data, i + 1, snd (transceive sn (srom_data ! unat i) (delay_us 15 s))),
       (sn, srom_data, i, s))
      \<in> measure (\<lambda>(sn, srom_data, i, s). unat (of_nat (length srom_data) :: u16) - unat i)"
    by simp
qed

definition reset :: "'d sensor \<Rightarrow> u8 list \<Rightarrow> 'd spi \<Rightarrow> 'd spi" where
  "reset sn srom_data s =
     (let s = delay_us T_SRWR (deassert_ncs sn s);
          s = delay_us T_STDWN (write_reg sn SHUTDOWN 0xb6 s);
          s = delay_us T_SRWR (deassert_ncs sn s);
          s = delay_us T_WAKEUP (write_reg sn POWER_UP_RESET 0x5a s);
          s = fold (\<lambda>i s. snd (read sn (of_nat i) s)) [2 ..< 7] s;
          s = write_reg sn CONFIG2 0 s;
          s = write_reg sn SROM_ENABLE 0x1d s;
          s = delay_ms 10 s;
          s = write_reg sn SROM_ENABLE 0x18 s;
          s = delay_us T_NCS_SCLK (assert_ncs sn s);
          s = snd (transceive sn (SROM_LOAD_BURST OR 0x80) s);
          s = srom_loop sn srom_data 0 s;
          s = deassert_ncs sn (delay_us 15 s);
          s = delay_us (200 - 15) s;
          s = snd (read sn SROM_ID s)
      in write_reg sn CONFIG2 0 s)"

text \<open>
  The events of one register write and of one register read, and of the paced stream of
  an image: what the trace of \<^verbatim>\<open>reset\<close> is compared with.
\<close>

definition write_events :: "u8 \<Rightarrow> u8 \<Rightarrow> event list" where
  "write_events addr data =
     [NCS_low, Delay_us (12 / 100), Xfer (addr OR 0x80), Xfer data,
      Delay_us 35, NCS_high, Delay_us 145]"

definition read_events :: "u8 \<Rightarrow> event list" where
  "read_events addr =
     [NCS_low, Delay_us (12 / 100), Xfer addr, Delay_us 160, Xfer 0,
      Delay_us (12 / 100), NCS_high, Delay_us (1988 / 100)]"

definition paced_stream :: "u8 list \<Rightarrow> event list" where
  "paced_stream bytes = concat (map (\<lambda>b. [Delay_us 15, Xfer b]) bytes)"

definition reset_head :: "event list" where
  "reset_head =
     [NCS_high, Delay_us 20] @ write_events SHUTDOWN 0xb6 @ [Delay_us (1 / 2)] @
     [NCS_high, Delay_us 20] @ write_events POWER_UP_RESET 0x5a @ [Delay_us 50000] @
     read_events 2 @ read_events 3 @ read_events 4 @ read_events 5 @ read_events 6 @
     write_events CONFIG2 0 @ write_events SROM_ENABLE 0x1d @ [Delay_ms 10] @
     write_events SROM_ENABLE 0x18 @ [NCS_low, Delay_us (12 / 100)]"

definition reset_tail :: "event list" where
  "reset_tail =
     [Delay_us 15, NCS_high, Delay_us 185] @ read_events SROM_ID @ write_events CONFIG2 0"

text \<open>The bytes sent in a trace, in order.\<close>

fun sent :: "event list \<Rightarrow> u8 list" where
  "sent [] = []"
| "sent (Xfer b # es) = b # sent es"
| "sent (e # es) = sent es"

subsection \<open>Configuration: the resolution registers\<close>

text \<open>
  \<^verbatim>\<open>main\<close>, lines 193 to 200. \<open>R\<close> is the macro \<^verbatim>\<open>RESOLUTION\<close>; \<open>r\<close> is a \<^verbatim>\<open>uint16_t\<close>.
\<close>

definition RESOLUTION :: nat where "RESOLUTION = 16000"

definition configure :: "'d sensor \<Rightarrow> nat \<Rightarrow> 'd spi \<Rightarrow> 'd spi" where
  "configure sn R s =
     (let r = (of_nat (R div 50) :: u16);
          s = write_reg sn RESOLUTION_L (ucast (r AND 0xff)) s;
          s = write_reg sn RESOLUTION_H (ucast (drop_bit 8 r AND 0xff)) s
      in write_reg sn ANGLE_TUNE POINTER_ROTATION s)"

text \<open>
  The read-back of lines 207 and 208 (compiled with \<^verbatim>\<open>ENABLE_CDC\<close>):
  \<^verbatim>\<open>(uint16_t)read(RESOLUTION_H) << 8 | read(RESOLUTION_L)\<close>. C leaves open which operand
  of \<^verbatim>\<open>|\<close> is evaluated first; \<open>h_first\<close> chooses.
\<close>

definition read_resolution :: "'d sensor \<Rightarrow> bool \<Rightarrow> 'd spi \<Rightarrow> u16 \<times> 'd spi" where
  "read_resolution sn h_first s =
     (if h_first then
        (let (h, s1) = read sn RESOLUTION_H s; (l, s2) = read sn RESOLUTION_L s1
         in (push_bit 8 (ucast h) OR ucast l, s2))
      else
        (let (l, s1) = read sn RESOLUTION_L s; (h, s2) = read sn RESOLUTION_H s1
         in (push_bit 8 (ucast h) OR ucast l, s2)))"

text \<open>
  A sensor that is a plain register file: in a frame, the first byte is the address;
  with the top bit set the next byte is stored at the address (top bit stripped),
  otherwise the register is shifted out.
\<close>

record regfile =
  regs :: "u8 \<Rightarrow> u8"
  addr :: "u8 option"

definition regfile_sensor :: "regfile sensor" where
  "regfile_sensor =
     \<lparr>on_select = (\<lambda>d. d\<lparr>addr := None\<rparr>),
      on_deselect = (\<lambda>d. d\<lparr>addr := None\<rparr>),
      on_byte = (\<lambda>c d.
        case addr d of
          None \<Rightarrow> (0, d\<lparr>addr := Some c\<rparr>)
        | Some a \<Rightarrow>
            if a AND 0x80 \<noteq> 0
            then (0, d\<lparr>regs := (regs d)(a AND 0x7f := c)\<rparr>)
            else (regs d a, d))\<rparr>"

subsection \<open>Motion poll: the body of the main loop\<close>

text \<open>
  The loop \<^verbatim>\<open>for (int i = 1; i < N; i++) v[i] = transceive(0)\<close>, as the number of bytes
  still to read.
\<close>

fun burst_bytes :: "'d sensor \<Rightarrow> nat \<Rightarrow> 'd spi \<Rightarrow> u8 list \<times> 'd spi" where
  "burst_bytes sn 0 s = ([], s)"
| "burst_bytes sn (Suc n) s =
     (case transceive sn 0 s of
        (x, s') \<Rightarrow> (case burst_bytes sn n s' of (xs, s'') \<Rightarrow> (x # xs, s'')))"

text \<open>
  \<^verbatim>\<open>*(int16_t *)(v + k)\<close>: the AVR stores the low byte at the lower address.
\<close>

definition load_int16 :: "u8 list \<Rightarrow> nat \<Rightarrow> i16" where
  "load_int16 v k = word_cat (v ! (k + 1)) (v ! k)"

text \<open>
  Lines 219 to 243, with \<^verbatim>\<open>N = 6\<close> (\<^verbatim>\<open>ENABLE_CDC\<close> is not defined). The result holds the bytes of \<^verbatim>\<open>v\<close> that were
  received (the others stay uninitialised and are not read), \<^verbatim>\<open>delta_x\<close> and
  \<^verbatim>\<open>delta_y\<close>.
\<close>

definition motion_burst :: "'d sensor \<Rightarrow> 'd spi \<Rightarrow> (u8 list \<times> i16 \<times> i16) \<times> 'd spi" where
  "motion_burst sn s =
     (let s1 = delay_us T_NCS_SCLK (assert_ncs sn s);
          s2 = snd (transceive sn MOTION_BURST s1);
          s3 = delay_us T_SRAD_MOTBR s2;
          (v0, s4) = transceive sn 0 s3
      in if v0 AND 0x80 > 0 then
           (let (vs, s5) = burst_bytes sn 5 s4; v = v0 # vs
            in ((v, load_int16 v 2, load_int16 v 4), deassert_ncs sn s5))
         else (([v0], 0, 0), deassert_ncs sn s4))"

text \<open>The motion flag, \<^verbatim>\<open>(v[0] & 0x80) > 0\<close>.\<close>

definition motion :: "u8 list \<Rightarrow> bool" where
  "motion v \<longleftrightarrow> v ! 0 AND 0x80 > 0"

text \<open>
  A sensor that plays a script: it shifts out the bytes of a list in order (and zero
  when the list is used up), whatever it is sent.
\<close>

definition scripted_sensor :: "u8 list sensor" where
  "scripted_sensor =
     \<lparr>on_select = (\<lambda>d. d), on_deselect = (\<lambda>d. d),
      on_byte = (\<lambda>c d. case d of [] \<Rightarrow> (0, []) | x # xs \<Rightarrow> (x, xs))\<rparr>"

section \<open>Axis accumulators (\<^verbatim>\<open>axes.c\<close>)\<close>

text \<open>
  The accumulators are C doubles. The value of a finite double is a rational number, and
  the model carries these values. The result of an addition, a multiplication or a
  division of doubles is the exact result rounded to a double: the rounding \<open>rnd\<close> is a
  parameter of the model, so that what is proved holds for every rounding. Negation,
  the conversion of an \<^verbatim>\<open>int16_t\<close> and \<^verbatim>\<open>modf\<close> are exact. A decimal constant of
  \<^verbatim>\<open>config.h\<close> is the rounded value of the decimal.
\<close>

type_synonym double = rat

definition fadd :: "(rat \<Rightarrow> rat) \<Rightarrow> double \<Rightarrow> double \<Rightarrow> double" where
  "fadd rnd a b = rnd (a + b)"

definition fmul :: "(rat \<Rightarrow> rat) \<Rightarrow> double \<Rightarrow> double \<Rightarrow> double" where
  "fmul rnd a b = rnd (a * b)"

definition fdiv :: "(rat \<Rightarrow> rat) \<Rightarrow> double \<Rightarrow> double \<Rightarrow> double" where
  "fdiv rnd a b = rnd (a / b)"

definition POINTER_SENSITIVITY :: "(rat \<Rightarrow> rat) \<Rightarrow> double" where
  "POINTER_SENSITIVITY rnd = rnd (12 / 1000)"

definition WHEEL_SENSITIVITY_X :: "(rat \<Rightarrow> rat) \<Rightarrow> double" where
  "WHEEL_SENSITIVITY_X rnd = rnd (35 / 100)"

definition WHEEL_SENSITIVITY_Y :: "(rat \<Rightarrow> rat) \<Rightarrow> double" where
  "WHEEL_SENSITIVITY_Y rnd = rnd (35 / 100)"

text \<open>
  \<^verbatim>\<open>modf\<close> splits a double into its fractional part (returned) and its integral part
  (stored through the pointer), both with the sign of the argument: the integral part
  is the argument truncated toward zero.
\<close>

definition trunc :: "rat \<Rightarrow> int" where
  "trunc x = (if 0 \<le> x then \<lfloor>x\<rfloor> else \<lceil>x\<rceil>)"

definition modf :: "double \<Rightarrow> double \<times> double" where
  "modf x = (x - of_int (trunc x), of_int (trunc x))"

text \<open>
  The cast \<^verbatim>\<open>(int16_t)ix\<close>. C defines the conversion of a double to an integer type
  only when the truncated value can be represented in the type; otherwise the
  behaviour is undefined, which the model reports as \<open>None\<close>. The code has no other
  treatment of the range.
\<close>

definition to_int16 :: "double \<Rightarrow> i16 option" where
  "to_int16 x =
     (let k = trunc x
      in if - 32768 \<le> k \<and> k \<le> 32767 then Some (word_of_int k) else None)"

text \<open>
  \<^verbatim>\<open>static double axes[4]\<close> is a list of four doubles, zero at start.
\<close>

definition axes_init :: "double list" where
  "axes_init = [0, 0, 0, 0]"

definition update_axes :: "(rat \<Rightarrow> rat) \<Rightarrow> i16 \<Rightarrow> i16 \<Rightarrow> bool \<Rightarrow> double list \<Rightarrow> double list" where
  "update_axes rnd delta_x delta_y scroll axes =
     (let i = (if scroll then 1 else 0) * 2;
          axes = axes[i + 0 := fadd rnd (axes ! (i + 0)) (of_int (sint delta_x))]
      in axes[i + 1 := fadd rnd (axes ! (i + 1)) (of_int (sint delta_y))])"

text \<open>
  \<^verbatim>\<open>get_axes\<close> returns the flag, the four deltas written to \<^verbatim>\<open>p\<close> and the new
  accumulators, or \<open>None\<close> when one of the four casts is undefined.
\<close>

definition get_axes :: "(rat \<Rightarrow> rat) \<Rightarrow> double list \<Rightarrow> (bool \<times> i16 list \<times> double list) option" where
  "get_axes rnd axes =
     (let x = fmul rnd (POINTER_SENSITIVITY rnd) (axes ! 0);
          y = fmul rnd (POINTER_SENSITIVITY rnd) (- (axes ! 1));
          (fx, ix) = modf x;
          (fy, iy) = modf y;
          p0 = to_int16 ix;
          p1 = to_int16 iy;
          axes = axes[0 := fdiv rnd fx (POINTER_SENSITIVITY rnd)];
          axes = axes[1 := fdiv rnd (- fy) (POINTER_SENSITIVITY rnd)];
          x = fmul rnd (WHEEL_SENSITIVITY_X rnd) (axes ! 2);
          y = fmul rnd (WHEEL_SENSITIVITY_Y rnd) (axes ! 3);
          (fx, ix) = modf x;
          (fy, iy) = modf y;
          p2 = to_int16 ix;
          p3 = to_int16 iy;
          axes = axes[2 := fdiv rnd fx (WHEEL_SENSITIVITY_X rnd)];
          axes = axes[3 := fdiv rnd fy (WHEEL_SENSITIVITY_Y rnd)]
      in case (p0, p1, p2, p3) of
           (Some a, Some b, Some c, Some d) \<Rightarrow>
             Some (list_ex (\<lambda>v. v \<noteq> 0) [a, b, c, d], [a, b, c, d], axes)
         | _ \<Rightarrow> None)"

text \<open>
  The four products \<^verbatim>\<open>x\<close> and \<^verbatim>\<open>y\<close> that \<^verbatim>\<open>get_axes\<close> computes, in the order of the
  deltas: the scaled accumulated motion of each axis.
\<close>

definition scaled_axes :: "(rat \<Rightarrow> rat) \<Rightarrow> double list \<Rightarrow> double list" where
  "scaled_axes rnd axes =
     [fmul rnd (POINTER_SENSITIVITY rnd) (axes ! 0),
      fmul rnd (POINTER_SENSITIVITY rnd) (- (axes ! 1)),
      fmul rnd (WHEEL_SENSITIVITY_X rnd) (axes ! 2),
      fmul rnd (WHEEL_SENSITIVITY_Y rnd) (axes ! 3)]"

subsection \<open>Runs of updates and reports\<close>







subsection \<open>The tick of the main loop and the report callback\<close>

text \<open>
  Lines 247 to 253 of \<^verbatim>\<open>main.c\<close>: the scroll flag is the scroll button's pin reading
  low, and the deltas of the motion poll go to \<^verbatim>\<open>update_axes\<close> with it. The call of
  \<^verbatim>\<open>do_usb_tasks\<close> that follows belongs to the USB library.
\<close>

definition scroll_mode :: "u8 \<Rightarrow> bool" where
  "scroll_mode pind \<longleftrightarrow> pind AND push_bit SCROLL_BUTTON 1 = 0"

definition main_loop_body ::
  "(rat \<Rightarrow> rat) \<Rightarrow> 'd sensor \<Rightarrow> u8 \<Rightarrow> 'd spi \<times> double list \<Rightarrow> 'd spi \<times> double list" where
  "main_loop_body rnd sn pind st =
     (case st of (s, axes) \<Rightarrow>
        (case motion_burst sn s of
           ((v, delta_x, delta_y), s') \<Rightarrow>
             (s', update_axes rnd delta_x delta_y (scroll_mode pind) axes)))"

text \<open>
  The mouse branch of \<^verbatim>\<open>CALLBACK_HID_Device_CreateHIDReport\<close>: the report (buttons and
  the four deltas), the value returned and the new state.
\<close>

definition CreateHIDReport_mouse ::
  "int \<Rightarrow> (rat \<Rightarrow> rat) \<Rightarrow> u8 \<Rightarrow> double list \<times> debounce_state \<Rightarrow>
   ((u8 \<times> i16 list) \<times> bool \<times> (double list \<times> debounce_state)) option" where
  "CreateHIDReport_mouse T rnd pind st =
     (case st of (axes, ds) \<Rightarrow>
        (case get_axes rnd axes of
           None \<Rightarrow> None
         | Some (q, p, axes') \<Rightarrow>
             (case debounce T (read_buttons pind) ds of
                (buttons, accepted, ds') \<Rightarrow>
                  Some ((buttons, p), (if accepted then True else q), (axes', ds')))))"

section \<open>Properties of the button debouncer\<close>

subsection \<open>Runs of polls\<close>

lemma debounce_run_append:
  "debounce_run T s (xs @ ys) =
     debounce_run T s xs @ debounce_run T (debounce_after T s xs) ys"
  by (induction xs arbitrary: s) (auto split: prod.splits)

lemma debounce_idle_same:
  "debounce_count s = 0 \<Longrightarrow> debounce T (old_buttons s) s = (old_buttons s, False, s)"
  by (simp add: debounce_def)

lemma debounce_run_idle_same:
  "debounce_count s = 0 \<Longrightarrow>
   debounce_run T s (replicate m (old_buttons s)) = replicate m (old_buttons s, False)"
  by (induction m) (simp_all add: debounce_idle_same)

lemma debounce_after_idle_same:
  "debounce_count s = 0 \<Longrightarrow> debounce_after T s (replicate m (old_buttons s)) = s"
  by (induction m) (simp_all add: debounce_idle_same)

lemma uint_count_succ:
  fixes c :: u8
  assumes "uint c \<le> 254"
  shows "uint (c + 1) = uint c + 1"
  using assms by (simp add: uint_word_ariths)

text \<open>
  While the candidate \<open>b\<close> is in flight with the counter \<open>k\<close> short of the threshold,
  \<open>k\<close> more samples of \<open>b\<close> leave the old mask in the report, the next one is accepted,
  and every later one finds the debouncer idle at \<open>b\<close>.
\<close>

lemma debounce_run_candidate:
  assumes "T \<le> 254" "a \<noteq> b"
  shows "debounce_count s \<noteq> 0 \<Longrightarrow> uint (debounce_count s) + int k = T \<Longrightarrow>
    new_buttons s = b \<Longrightarrow> old_buttons s = a \<Longrightarrow>
    debounce_run T s (replicate n b) =
      replicate (min n k) (a, False) @
      (if k < n then (b, True) # replicate (n - k - 1) (b, False) else [])"
proof (induction n arbitrary: s k)
  case 0
  then show ?case by simp
next
  case (Suc n)
  have le: "uint (debounce_count s) \<le> 254" using Suc.prems(2) assms(1) by linarith
  have su: "uint (debounce_count s + 1) = uint (debounce_count s) + 1"
    using le by (rule uint_count_succ)
  show ?case
  proof (cases k)
    case 0
    then have acc: "debounce T b s = (b, True, s\<lparr>old_buttons := b, debounce_count := 0\<rparr>)"
      using Suc.prems su by (simp add: debounce_def)
    have idle: "debounce_run T (s\<lparr>old_buttons := b, debounce_count := 0\<rparr>) (replicate n b)
       = replicate n (b, False)"
      using debounce_run_idle_same [of "s\<lparr>old_buttons := b, debounce_count := 0\<rparr>" T n] by simp
    show ?thesis using 0 acc idle by simp
  next
    case (Suc k')
    let ?s' = "s\<lparr>debounce_count := debounce_count s + 1\<rparr>"
    have stp: "debounce T b s = (a, False, ?s')"
      using Suc Suc.prems su by (simp add: debounce_def)
    have nz: "debounce_count ?s' \<noteq> 0"
    proof
      assume "debounce_count ?s' = 0"
      then have "uint (debounce_count s + 1) = 0" by simp
      with su have "uint (debounce_count s) + 1 = 0" by simp
      moreover have "0 \<le> uint (debounce_count s)" by simp
      ultimately show False by linarith
    qed
    have "debounce_run T ?s' (replicate n b) =
      replicate (min n k') (a, False) @
      (if k' < n then (b, True) # replicate (n - k' - 1) (b, False) else [])"
      using Suc.IH [of ?s' k'] nz su Suc Suc.prems by simp
    then show ?thesis using stp Suc by simp
  qed
qed

text \<open>
  The counter is eight bits wide: a threshold of 255 or more is never exceeded, so no
  candidate is ever accepted.
\<close>

lemma debounce_threshold_too_large:
  assumes "255 \<le> T"
  shows "fst (snd (debounce T b s)) = False \<and>
         old_buttons (snd (snd (debounce T b s))) = old_buttons s"
proof -
  have "uint c \<le> 255" for c :: u8
    using uint_bounded [of c] by simp
  then have "\<not> uint c > T" for c :: u8
    using assms by (meson order_trans not_less)
  then show ?thesis
    by (simp add: debounce_def Let_def)
qed

subsection \<open>A single flip that holds\<close>

text \<open>
  Claim C2, as the code has it. Let the threshold \<open>T\<close> be between 1 and 254, the
  debouncer idle with accepted mask \<open>a\<close>, and the raw mask read \<open>a\<close> on \<open>m\<close> polls and
  then a different value \<open>b\<close> on \<open>n\<close> polls. The reported mask is \<open>a\<close> on the first
  \<open>m\<close> polls and on the first \<open>T\<close> polls that sample \<open>b\<close>; the poll that takes the
  \<open>(T+1)\<close>-th sample of \<open>b\<close> reports \<open>b\<close> and signals the change; every later poll
  reports \<open>b\<close> with no further change. So the visible mask changes exactly once, on
  sample \<open>T + 1\<close> of the new value and on no earlier poll.
\<close>

theorem single_flip_accepted_after_T_plus_1:
  assumes T: "1 \<le> T" "T \<le> 254"
    and idle: "debounce_count s = 0" and a: "old_buttons s = a" and ab: "b \<noteq> a"
  shows "debounce_run T s (replicate m a @ replicate n b) =
     replicate (m + min n (nat T)) (a, False) @
     (if nat T < n then (b, True) # replicate (n - nat T - 1) (b, False) else [])"
proof -
  have pre: "debounce_run T s (replicate m a) = replicate m (a, False)"
    using debounce_run_idle_same [OF idle, of T m] a by simp
  have aft: "debounce_after T s (replicate m a) = s"
    using debounce_after_idle_same [OF idle, of T m] a by simp
  have tail: "debounce_run T s (replicate n b) =
     replicate (min n (nat T)) (a, False) @
     (if nat T < n then (b, True) # replicate (n - nat T - 1) (b, False) else [])"
  proof (cases n)
    case 0
    then show ?thesis by simp
  next
    case (Suc n')
    let ?s' = "s\<lparr>new_buttons := b, debounce_count := 1\<rparr>"
    have stp: "debounce T b s = (a, False, ?s')"
      using idle a ab by (simp add: debounce_def)
    obtain k where k: "nat T = Suc k" using T by (cases "nat T") auto
    have "debounce_run T ?s' (replicate n' b) =
      replicate (min n' k) (a, False) @
      (if k < n' then (b, True) # replicate (n' - k - 1) (b, False) else [])"
      using debounce_run_candidate [of T a b ?s' k n'] T a ab k by simp
    then show ?thesis using stp Suc k by simp
  qed
  show ?thesis
    unfolding debounce_run_append pre aft tail by (simp add: replicate_add)
qed

text \<open>
  The configured firmware: from the initial state, two polls with no button and eight
  polls with the first button down. The sixth sample of the new mask is the one
  accepted.
\<close>

theorem single_flip_witness:
  "1 \<le> DEBOUNCE_INTERVAL \<and> DEBOUNCE_INTERVAL \<le> 254 \<and> debounce_count debounce_init = 0 \<and>
   old_buttons debounce_init = 0 \<and> (1::u8) \<noteq> 0 \<and>
   debounce_run DEBOUNCE_INTERVAL debounce_init (replicate 2 0 @ replicate 8 1) =
     replicate 7 (0, False) @ [(1, True), (1, False), (1, False)]"
proof -
  have h: "debounce_count debounce_init = 0" "old_buttons debounce_init = 0"
    by (simp_all add: debounce_init_def)
  have T: "1 \<le> DEBOUNCE_INTERVAL" "DEBOUNCE_INTERVAL \<le> 254" "nat DEBOUNCE_INTERVAL = 5"
    by (simp_all add: DEBOUNCE_INTERVAL_def)
  have "debounce_run DEBOUNCE_INTERVAL debounce_init (replicate 2 0 @ replicate 8 1) =
     replicate (2 + min 8 (nat DEBOUNCE_INTERVAL)) (0, False) @
     (if nat DEBOUNCE_INTERVAL < 8
      then (1, True) # replicate (8 - nat DEBOUNCE_INTERVAL - 1) (1, False) else [])"
    using h T by (intro single_flip_accepted_after_T_plus_1) simp_all
  moreover have "replicate (2 + min 8 (5::nat)) (0::u8, False) = replicate 7 (0, False)"
    by simp
  moreover have "(if (5::nat) < 8 then (1::u8, True) # replicate (8 - 5 - 1) (1, False) else [])
     = [(1, True), (1, False), (1, False)]"
    by (simp add: numeral_2_eq_2)
  ultimately show ?thesis using h T by simp
qed

text \<open>
  With the threshold 0 the claim fails: the poll that first samples the new mask only
  records the candidate, and the mask is accepted on the second sample, not on sample
  \<open>T + 1 = 1\<close>.
\<close>

theorem single_flip_threshold_zero_counterexample:
  "debounce_run 0 debounce_init [1, 1] = [(0, False), (1, True)]"
  by (simp add: debounce_def debounce_init_def)

subsection \<open>A sample that differs from the candidate in flight\<close>

lemma debounce_mismatch:
  assumes "debounce_count s \<noteq> 0" "b \<noteq> new_buttons s" "1 \<le> T"
  shows "debounce T b s = (old_buttons s, False, s\<lparr>debounce_count := 1\<rparr>)"
  using assms by (simp add: debounce_def)

lemma debounce_run_stuck:
  assumes "debounce_count s = 1" "b \<noteq> new_buttons s" "1 \<le> T"
  shows "debounce_run T s (replicate n b) = replicate n (old_buttons s, False)"
proof -
  have "debounce T b s = (old_buttons s, False, s)"
    using assms by (simp add: debounce_def)
  then show ?thesis by (induction n) simp_all
qed

text \<open>
  With the threshold 1 the stale candidate is accepted on the samples 1, 0, 1, though no
  two successive samples agree.
\<close>

lemma stale_candidate_accepted:
  "debounce_run 1 debounce_init [1, 0, 1] = [(0, False), (0, False), (1, True)]"
  by (simp add: debounce_def debounce_init_def)

text \<open>
  From the initial state of the configured firmware, a first sample of the mask 1
  followed by any number of samples of the mask 2 never changes the reported mask: the
  held mask 2 is not accepted.
\<close>

lemma held_mask_never_accepted:
  "debounce_run DEBOUNCE_INTERVAL debounce_init (1 # replicate n 2) = replicate (Suc n) (0, False)"
proof -
  let ?s = "\<lparr>old_buttons = 0, new_buttons = 1, debounce_count = 1\<rparr>"
  have first: "debounce DEBOUNCE_INTERVAL 1 debounce_init = (0, False, ?s)"
    by (simp add: debounce_def debounce_init_def)
  have "debounce_run DEBOUNCE_INTERVAL ?s (replicate n 2) = replicate n (old_buttons ?s, False)"
    by (rule debounce_run_stuck) (simp_all add: DEBOUNCE_INTERVAL_def)
  then show ?thesis by (simp add: first)
qed

text \<open>
  Claim C3 says that a sample that differs from the candidate in flight restarts the
  debouncing with that sample as the candidate and the counter at 1. The code sets the
  counter but not the candidate. From the initial state with the configured threshold,
  the first poll samples the mask 1 and starts debouncing it; the second poll samples
  the mask 2; after it the counter is 1 and the recorded candidate is still 1. The else
  branch of line 594 assigns \<^verbatim>\<open>debounce_count\<close> only, where the idle branch of line 585
  assigns \<^verbatim>\<open>new_buttons = b\<close> as well.
\<close>

theorem restart_keeps_stale_candidate:
  "debounce_after DEBOUNCE_INTERVAL debounce_init [1, 2] =
     \<lparr>old_buttons = 0, new_buttons = 1, debounce_count = 1\<rparr>"
  by (simp add: debounce_def debounce_init_def DEBOUNCE_INTERVAL_def)

subsection \<open>A raw mask that changes on every poll\<close>

lemma debounce_bounce_step:
  assumes T: "2 \<le> T" and inv: "bounce_inv s prev" and ne: "b \<noteq> prev"
  shows "\<exists>s'. debounce T b s = (old_buttons s, False, s') \<and>
           old_buttons s' = old_buttons s \<and> bounce_inv s' b"
  using assms by (auto simp: debounce_def bounce_inv_def Let_def)

lemma debounce_run_distinct_adj:
  assumes T: "2 \<le> T"
  shows "bounce_inv s prev \<Longrightarrow> distinct_adj (prev # bs) \<Longrightarrow>
         debounce_run T s bs = replicate (length bs) (old_buttons s, False)"
proof (induction bs arbitrary: s prev)
  case Nil
  then show ?case by simp
next
  case (Cons b bs)
  from Cons.prems have ne: "b \<noteq> prev" and da: "distinct_adj (b # bs)" by auto
  from debounce_bounce_step [OF T Cons.prems(1) ne]
  obtain s' where s': "debounce T b s = (old_buttons s, False, s')"
    "old_buttons s' = old_buttons s" "bounce_inv s' b" by blast
  from Cons.IH [OF s'(3) da] s' show ?case by simp
qed

lemma distinct_adj_oscillate: "x \<noteq> y \<Longrightarrow> distinct_adj (y # oscillate x y n)"
  by (induction n arbitrary: x y) auto

lemma length_oscillate: "length (oscillate x y n) = n"
  by (induction n arbitrary: x y) auto

text \<open>
  With a threshold of at least 2 and the debouncer idle, a raw mask that alternates
  between two distinct values leaves every report at the mask accepted at the start.
\<close>

lemma oscillation_never_accepted:
  assumes "2 \<le> T" "debounce_count s = 0" "x \<noteq> y"
  shows "debounce_run T s (oscillate x y n) = replicate n (old_buttons s, False)"
proof -
  have "bounce_inv s y" using assms(2) by (simp add: bounce_inv_def)
  from debounce_run_distinct_adj [OF assms(1) this distinct_adj_oscillate [OF assms(3)], of n]
  show ?thesis by (simp add: length_oscillate)
qed

text \<open>
  An alternating input holds every value for exactly one poll: no value is held for \<open>k\<close>
  consecutive polls when \<open>k\<close> is at least 2, and a value is held for \<open>k\<close> polls when \<open>k\<close>
  is 0 or 1 and there is a sample at all.
\<close>

lemma held_at_most_one: "xs \<noteq> [] \<Longrightarrow> k \<le> 1 \<Longrightarrow> held k xs"
  by (cases xs) simp_all

lemma takeWhile_oscillate: "x \<noteq> y \<Longrightarrow> takeWhile (\<lambda>z. z = x) (oscillate y x n) = []"
  by (cases n) simp_all

lemma oscillate_not_held:
  "x \<noteq> y \<Longrightarrow> 2 \<le> k \<Longrightarrow> \<not> held k (oscillate x y n)"
proof (induction n arbitrary: x y)
  case 0
  then show ?case by simp
next
  case (Suc n)
  have "\<not> held k (oscillate y x n)"
    using Suc.IH [of y x] Suc.prems by simp
  then show ?case
    using Suc.prems by (simp add: takeWhile_oscillate)
qed

lemma held_examples:
  "held 0 (oscillate 1 2 2)" "held 1 (oscillate 1 2 2)" "\<not> held 2 (oscillate 1 2 2)"
  "held 3 [5, 7, 7, 7, 5 :: u8]" "\<not> held 4 [5, 7, 7, 7, 5 :: u8]"
  by (simp_all add: numeral_2_eq_2)

text \<open>
  Claim C5. Let \<open>T\<close> be the debounce threshold, the debouncer idle, and the raw mask
  alternate between two distinct values \<open>x\<close> and \<open>y\<close> on \<open>n\<close> consecutive polls, so that
  no value is held for \<open>T\<close> consecutive polls. Every poll reports the mask accepted at
  the start and none signals a change: the visible mask never changes.
\<close>

theorem oscillation_leaves_mask:
  assumes idle: "debounce_count s = 0" and xy: "x \<noteq> y"
    and nh: "\<not> held (nat T) (oscillate x y n)"
  shows "debounce_run T s (oscillate x y n) = replicate n (old_buttons s, False)"
proof (cases n)
  case 0
  then show ?thesis by simp
next
  case (Suc m)
  then have "oscillate x y n \<noteq> []" by simp
  with nh have "\<not> nat T \<le> 1"
    using held_at_most_one [of "oscillate x y n" "nat T"] by blast
  then have "2 \<le> T" by simp
  then show ?thesis
    using idle xy by (rule oscillation_never_accepted)
qed

text \<open>
  The configured threshold 5 and eight polls that alternate between the masks 1 and 2.
\<close>

theorem oscillation_witness:
  "debounce_count debounce_init = 0 \<and> (1::u8) \<noteq> 2 \<and>
   \<not> held (nat DEBOUNCE_INTERVAL) (oscillate (1::u8) 2 8) \<and>
   debounce_run DEBOUNCE_INTERVAL debounce_init [1, 2, 1, 2, 1, 2, 1, 2] = replicate 8 (0, False)"
proof -
  have h: "debounce_count debounce_init = 0" "old_buttons debounce_init = 0"
    by (simp_all add: debounce_init_def)
  have nh: "\<not> held (nat DEBOUNCE_INTERVAL) (oscillate (1::u8) 2 8)"
    by (rule oscillate_not_held) (simp_all add: DEBOUNCE_INTERVAL_def)
  have o: "oscillate 1 2 8 = [1, 2, 1, 2, 1, 2, 1, 2 :: u8]"
    by code_simp
  have "debounce_run DEBOUNCE_INTERVAL debounce_init (oscillate 1 2 8) =
          replicate 8 (old_buttons debounce_init, False)"
    using h(1) _ nh by (rule oscillation_leaves_mask) simp
  then show ?thesis using h nh o by simp
qed

text \<open>
  The condition on the run is needed. With the threshold 0 every value of the samples
  1, 2 is held for \<open>T\<close> polls, and the second poll accepts the candidate 1.
\<close>

lemma oscillation_threshold_zero:
  "debounce_run 0 debounce_init (oscillate 1 2 2) = [(0, False), (1, True)]"
  by (simp add: debounce_def debounce_init_def numeral_2_eq_2)

lemma read_buttons_one_button:
  "read_buttons 0xfb = 1" "read_buttons 0xdf = 2" "read_buttons 0xff = 0"
  by (simp_all add: read_buttons_def BUTTONS_def BUTTON_A_def BUTTON_B_def BUTTON_C_def
      BUTTON_E_def PIND1_def PIND2_def PIND4_def PIND5_def)

section \<open>Properties of the sensor bus\<close>

subsection \<open>Traces\<close>

lemma trace_transceive: "trace (snd (transceive sn c s)) = trace s @ [Xfer c]"
  by (simp add: transceive_def split: prod.splits)

lemma trace_assert_ncs: "trace (assert_ncs sn s) = trace s @ [NCS_low]"
  by (simp add: assert_ncs_def)

lemma trace_deassert_ncs: "trace (deassert_ncs sn s) = trace s @ [NCS_high]"
  by (simp add: deassert_ncs_def)

lemma trace_delay_us: "trace (delay_us t s) = trace s @ [Delay_us t]"
  by (simp add: delay_us_def)

lemma trace_delay_ms: "trace (delay_ms t s) = trace s @ [Delay_ms t]"
  by (simp add: delay_ms_def)

lemmas trace_steps =
  trace_transceive trace_assert_ncs trace_deassert_ncs trace_delay_us trace_delay_ms

lemma transceive_traceD:
  "transceive sn c s = (x, s') \<Longrightarrow> trace s' = trace s @ [Xfer c]"
  using trace_transceive [of sn c s] by simp

lemma trace_read: "trace (snd (read sn a s)) = trace s @ read_events a"
  by (auto simp: read_def Let_def trace_steps read_events_def
      T_NCS_SCLK_def T_SRAD_def T_SCLK_NCS_READ_def T_SRWR_def
      split: prod.splits dest!: transceive_traceD)

lemma trace_write_reg: "trace (write_reg sn a d s) = trace s @ write_events a d"
  by (simp add: write_reg_def Let_def trace_steps write_events_def
      T_NCS_SCLK_def T_SCLK_NCS_WRITE_def T_SWWR_def)

lemma paced_stream_Cons: "paced_stream (b # bs) = Delay_us 15 # Xfer b # paced_stream bs"
  by (simp add: paced_stream_def)

lemma trace_srom_loop:
  assumes len: "length srom_data < 65536"
  shows "trace (srom_loop sn srom_data i s) = trace s @ paced_stream (drop (unat i) srom_data)"
  using len
proof (induction sn srom_data i s rule: srom_loop.induct)
  case (1 sn srom_data i s)
  have n: "unat (of_nat (length srom_data) :: u16) = length srom_data"
    using "1.prems" by (simp add: unat_of_nat)
  show ?case
  proof (cases "i < of_nat (length srom_data)")
    case True
    then have lt: "unat i < length srom_data"
      using n by (simp add: word_less_nat_alt)
    have su: "unat (i + 1) = Suc (unat i)"
      using True by (rule unat_succ_below)
    have d: "drop (unat i) srom_data = srom_data ! unat i # drop (Suc (unat i)) srom_data"
      using lt by (simp add: Cons_nth_drop_Suc)
    have "trace (srom_loop sn srom_data i s) =
          trace (snd (transceive sn (srom_data ! unat i) (delay_us 15 s))) @
          paced_stream (drop (unat (i + 1)) srom_data)"
      using "1.IH" [OF True "1.prems"] True by simp
    then show ?thesis
      by (simp add: su d trace_steps paced_stream_Cons)
  next
    case False
    then have "length srom_data \<le> unat i"
      using n by (simp add: word_less_nat_alt)
    then show ?thesis using False by (simp add: paced_stream_def)
  qed
qed

lemma trace_read_motion_regs:
  "trace (fold (\<lambda>i s. snd (read sn (of_nat i) s)) [2 ..< 7] s) =
     trace s @ read_events 2 @ read_events 3 @ read_events 4 @ read_events 5 @ read_events 6"
proof -
  have "[2 ..< 7] = [2, 3, 4, 5, 6 :: nat]" by code_simp
  then show ?thesis by (simp add: trace_read)
qed

lemma sent_paced_stream: "sent (paced_stream bytes) = bytes"
  by (induction bytes) (simp_all add: paced_stream_Cons, simp add: paced_stream_def)

lemma length_paced_stream: "length (paced_stream bytes) = 2 * length bytes"
  by (induction bytes) (simp_all add: paced_stream_Cons, simp add: paced_stream_def)

text \<open>
  Claim C8. For every firmware image that fits the 16-bit \<^verbatim>\<open>size_t\<close> of the target,
  the trace of \<^verbatim>\<open>reset\<close> is the fixed prologue, the exchange of the load-burst command
  with the write bit set, then for every byte of the image, in order, a delay of 15
  microseconds followed by the exchange of that byte, and then the fixed epilogue, which
  starts with the trailing delay and the release of the chip select. Nothing stands
  between the command and the stream or inside the stream, so the bytes sent in it are
  the image, and it has two events for every byte.
\<close>

theorem firmware_stream_paced:
  assumes "length srom_data < 65536"
  shows "trace (reset sn srom_data s) =
           trace s @ reset_head @ Xfer (SROM_LOAD_BURST OR 0x80) #
             concat (map (\<lambda>b. [Delay_us 15, Xfer b]) srom_data) @ reset_tail
         \<and> sent (concat (map (\<lambda>b. [Delay_us 15, Xfer b]) srom_data)) = srom_data
         \<and> length (concat (map (\<lambda>b. [Delay_us 15, Xfer b]) srom_data)) = 2 * length srom_data"
proof -
  have "trace (srom_loop sn srom_data 0 s') = trace s' @ paced_stream srom_data" for s' :: "'a spi"
    using trace_srom_loop [OF assms, of sn 0 s'] by simp
  then have "trace (reset sn srom_data s) =
      trace s @ reset_head @ Xfer (SROM_LOAD_BURST OR 0x80) # paced_stream srom_data @ reset_tail"
    by (simp add: reset_def Let_def trace_steps trace_read trace_write_reg trace_read_motion_regs
        reset_head_def reset_tail_def
        T_SRWR_def T_STDWN_def T_WAKEUP_def T_NCS_SCLK_def)
  moreover have "sent (paced_stream srom_data) = srom_data"
    by (rule sent_paced_stream)
  moreover have "length (paced_stream srom_data) = 2 * length srom_data"
    by (rule length_paced_stream)
  ultimately show ?thesis
    by (simp add: paced_stream_def)
qed

text \<open>An image of three bytes, loaded into a sensor that answers nothing.\<close>

theorem firmware_stream_witness:
  "length [0x11, 0x22, 0x33 :: u8] < 65536 \<and>
   trace (reset scripted_sensor [0x11, 0x22, 0x33] \<lparr>trace = [], dev = []\<rparr>) =
     reset_head @
     [Xfer 0xe2, Delay_us 15, Xfer 0x11, Delay_us 15, Xfer 0x22, Delay_us 15, Xfer 0x33] @
     reset_tail"
  using firmware_stream_paced [of "[0x11, 0x22, 0x33]" scripted_sensor "\<lparr>trace = [], dev = []\<rparr>"]
  by (simp add: SROM_LOAD_BURST_def)

subsection \<open>The resolution registers\<close>

lemma split_recombine:
  fixes r :: u16
  shows "push_bit 8 (ucast (ucast (drop_bit 8 r AND 0xff) :: u8) :: u16) OR
         ucast (ucast (r AND 0xff) :: u8) = r"
proof -
  have m: "(0xff :: u16) = mask 8" by (simp add: mask_eq_exp_minus_1)
  show ?thesis
    unfolding m
    by (rule bit_word_eqI) (auto simp: bit_simps)
qed

lemma write_bit_set: "(a OR 0x80) AND 0x80 = (0x80 :: u8)"
  by (rule bit_word_eqI) (auto simp: bit_simps)

lemma regfile_write_reg:
  "dev (write_reg regfile_sensor a d s) =
     \<lparr>regs = (regs (dev s))((a OR 0x80) AND 0x7f := d), addr = None\<rparr>"
  by (simp add: write_reg_def Let_def transceive_def assert_ncs_def deassert_ncs_def
      delay_us_def regfile_sensor_def write_bit_set)

lemma regfile_read:
  assumes "a AND 0x80 = 0"
  shows "fst (read regfile_sensor a s) = regs (dev s) a"
    and "dev (snd (read regfile_sensor a s)) = (dev s)\<lparr>addr := None\<rparr>"
  using assms
  by (simp_all add: read_def Let_def transceive_def assert_ncs_def deassert_ncs_def
      delay_us_def regfile_sensor_def)

lemma regfile_configure:
  "regs (dev (configure regfile_sensor R s)) RESOLUTION_L = ucast ((of_nat (R div 50) :: u16) AND 0xff)"
  "regs (dev (configure regfile_sensor R s)) RESOLUTION_H =
     ucast (drop_bit 8 (of_nat (R div 50) :: u16) AND 0xff)"
  by (simp_all add: configure_def Let_def regfile_write_reg
      RESOLUTION_L_def RESOLUTION_H_def ANGLE_TUNE_def)

text \<open>
  Claim C7. For every resolution \<open>R\<close> that is a multiple of 50 with \<open>R / 50\<close> below
  \<open>2\<^sup>1\<^sup>6\<close>, after \<^verbatim>\<open>main\<close> has written the low byte of \<open>R / 50\<close> to the low register and
  the high byte to the high register of a sensor that keeps what is written to its
  registers, reading the two registers back and combining them as
  \<^verbatim>\<open>(high << 8) | low\<close> gives \<open>R / 50\<close>, whichever register is read first.
\<close>

theorem resolution_round_trip:
  assumes "50 dvd R" "R div 50 < 2 ^ 16"
  shows "unat (fst (read_resolution regfile_sensor h_first (configure regfile_sensor R s))) = R div 50"
proof -
  let ?s = "configure regfile_sensor R s"
  let ?r = "of_nat (R div 50) :: u16"
  have l: "RESOLUTION_L AND 0x80 = 0" and h: "RESOLUTION_H AND 0x80 = 0"
    by (simp_all add: RESOLUTION_L_def RESOLUTION_H_def)
  have "fst (read_resolution regfile_sensor h_first ?s) =
        push_bit 8 (ucast (ucast (drop_bit 8 ?r AND 0xff) :: u8) :: u16) OR
        ucast (ucast (?r AND 0xff) :: u8)"
    by (cases h_first)
       (simp_all add: read_resolution_def Let_def split_beta regfile_read [OF l] regfile_read [OF h]
          regfile_configure)
  then have "fst (read_resolution regfile_sensor h_first ?s) = ?r"
    by (simp only: split_recombine)
  moreover have "unat ?r = R div 50"
    using assms(2) by (simp add: unat_of_nat)
  ultimately show ?thesis by simp
qed

text \<open>The configured resolution, 16000 counts per inch: the registers read back 320.\<close>

theorem resolution_round_trip_witness:
  "50 dvd RESOLUTION \<and> RESOLUTION div 50 < 2 ^ 16 \<and>
   unat (fst (read_resolution regfile_sensor True
     (configure regfile_sensor RESOLUTION
        \<lparr>trace = [], dev = \<lparr>regs = (\<lambda>a. 0), addr = None\<rparr>\<rparr>))) = 320"
  using resolution_round_trip [of RESOLUTION True
      "\<lparr>trace = [], dev = \<lparr>regs = (\<lambda>a. 0), addr = None\<rparr>\<rparr>"]
  by (simp add: RESOLUTION_def)

subsection \<open>The motion burst\<close>

lemma uint_u8_bounds:
  fixes b :: u8
  shows "0 \<le> uint b" "uint b < 256"
  using uint_bounded [of b] by simp_all

lemma uint_load:
  fixes lo hi :: u8
  shows "uint (word_cat hi lo :: i16) = uint lo + 256 * uint hi"
proof -
  have "concat_bit 8 (uint lo) (uint hi) = uint lo mod 256 + uint hi * 256"
    by (simp add: concat_bit_eq take_bit_eq_mod push_bit_eq_mult)
  also have "uint lo mod 256 = uint lo"
    using uint_u8_bounds [of lo] by simp
  finally have c: "concat_bit 8 (uint lo) (uint hi) = uint lo + uint hi * 256" .
  have "uint (word_cat hi lo :: i16) = concat_bit 8 (uint lo) (uint hi) mod 2 ^ 16"
    unfolding word_cat_eq' by (simp only: uint_word_of_int len_bit0 len_num1 One_nat_def)
       simp
  also have "\<dots> = (uint lo + uint hi * 256) mod 65536"
    by (simp only: c) simp
  also have "\<dots> = uint lo + uint hi * 256"
    using uint_u8_bounds [of lo] uint_u8_bounds [of hi] by simp
  finally show ?thesis by simp
qed

lemma sint_load:
  fixes lo hi :: u8
  shows "sint (word_cat hi lo :: i16) =
     (if uint hi < 128 then uint lo + 256 * uint hi else uint lo + 256 * uint hi - 65536)"
proof -
  let ?u = "uint lo + 256 * uint hi"
  have s: "sint (word_cat hi lo :: i16) = (?u + 32768) mod 65536 - 32768"
    by (simp add: sint_uint uint_load signed_take_bit_eq_take_bit_shift take_bit_eq_mod)
  show ?thesis
  proof (cases "uint hi < 128")
    case True
    then have "0 \<le> ?u + 32768" "?u + 32768 < 65536"
      using uint_u8_bounds [of lo] uint_u8_bounds [of hi] by linarith+
    then have "(?u + 32768) mod 65536 = ?u + 32768" by simp
    with s True show ?thesis by simp
  next
    case False
    then have "65536 \<le> ?u + 32768" "?u + 32768 < 2 * 65536"
      using uint_u8_bounds [of lo] uint_u8_bounds [of hi] by linarith+
    then have "(?u + 32768) mod 65536 = ?u + 32768 - 65536"
      by (smt (verit) mod_pos_pos_trivial mod_add_self2 minus_mod_self2)
    with s False show ?thesis by simp
  qed
qed

lemma top_bit: "(v0 AND 0x80 > 0) \<longleftrightarrow> bit v0 7" for v0 :: u8
proof -
  have "v0 AND 0x80 = 0 \<longleftrightarrow> \<not> bit v0 7"
    using and_exp_eq_0_iff_not_bit [of v0 7] by simp
  then show ?thesis by (simp add: word_greater_zero_iff)
qed

lemma burst_bytes_scripted:
  "burst_bytes scripted_sensor 5 \<lparr>trace = tr, dev = v1 # v2 # v3 # v4 # v5 # rest\<rparr> =
     ([v1, v2, v3, v4, v5], \<lparr>trace = tr @ [Xfer 0, Xfer 0, Xfer 0, Xfer 0, Xfer 0], dev = rest\<rparr>)"
proof -
  have five: "(5::nat) = Suc (Suc (Suc (Suc (Suc 0))))" by simp
  show ?thesis
    unfolding five by (simp add: transceive_def scripted_sensor_def)
qed

lemma motion_burst_scripted_motion:
  assumes "bit v0 7"
  shows "motion_burst scripted_sensor
           \<lparr>trace = tr, dev = j # v0 # v1 # v2 # v3 # v4 # v5 # rest\<rparr> =
         (([v0, v1, v2, v3, v4, v5], word_cat v3 v2, word_cat v5 v4),
          \<lparr>trace = tr @ [NCS_low, Delay_us T_NCS_SCLK, Xfer MOTION_BURST,
                 Delay_us T_SRAD_MOTBR, Xfer 0, Xfer 0, Xfer 0, Xfer 0, Xfer 0, Xfer 0, NCS_high],
           dev = rest\<rparr>)"
proof -
  let ?s = "\<lparr>trace = tr, dev = j # v0 # v1 # v2 # v3 # v4 # v5 # rest\<rparr>"
  let ?t4 = "tr @ [NCS_low, Delay_us T_NCS_SCLK, Xfer MOTION_BURST, Delay_us T_SRAD_MOTBR, Xfer 0]"
  have first: "transceive scripted_sensor 0
      (delay_us T_SRAD_MOTBR (snd (transceive scripted_sensor MOTION_BURST
         (delay_us T_NCS_SCLK (assert_ncs scripted_sensor ?s))))) =
      (v0, \<lparr>trace = ?t4, dev = v1 # v2 # v3 # v4 # v5 # rest\<rparr>)"
    by (simp add: transceive_def scripted_sensor_def delay_us_def assert_ncs_def)
  have "v0 AND 0x80 > 0" using assms by (simp add: top_bit)
  then have "motion_burst scripted_sensor ?s =
       (([v0, v1, v2, v3, v4, v5], word_cat v3 v2, word_cat v5 v4),
        deassert_ncs scripted_sensor
          \<lparr>trace = ?t4 @ [Xfer 0, Xfer 0, Xfer 0, Xfer 0, Xfer 0], dev = rest\<rparr>)"
    by (simp add: motion_burst_def Let_def first burst_bytes_scripted load_int16_def)
  then show ?thesis
    by (simp add: deassert_ncs_def scripted_sensor_def)
qed

lemma motion_burst_scripted_idle:
  assumes "\<not> bit v0 7"
  shows "motion_burst scripted_sensor \<lparr>trace = tr, dev = j # v0 # rest\<rparr> =
         (([v0], 0, 0),
          \<lparr>trace = tr @ [NCS_low, Delay_us T_NCS_SCLK, Xfer MOTION_BURST,
                 Delay_us T_SRAD_MOTBR, Xfer 0, NCS_high],
           dev = rest\<rparr>)"
proof -
  let ?s = "\<lparr>trace = tr, dev = j # v0 # rest\<rparr>"
  let ?t4 = "tr @ [NCS_low, Delay_us T_NCS_SCLK, Xfer MOTION_BURST, Delay_us T_SRAD_MOTBR, Xfer 0]"
  have first: "transceive scripted_sensor 0
      (delay_us T_SRAD_MOTBR (snd (transceive scripted_sensor MOTION_BURST
         (delay_us T_NCS_SCLK (assert_ncs scripted_sensor ?s))))) =
      (v0, \<lparr>trace = ?t4, dev = rest\<rparr>)"
    by (simp add: transceive_def scripted_sensor_def delay_us_def assert_ncs_def)
  have "\<not> v0 AND 0x80 > 0" using assms by (simp add: top_bit)
  then have "motion_burst scripted_sensor ?s =
      (([v0], 0, 0), deassert_ncs scripted_sensor \<lparr>trace = ?t4, dev = rest\<rparr>)"
    by (simp add: motion_burst_def Let_def first)
  then show ?thesis
    by (simp add: deassert_ncs_def scripted_sensor_def)
qed

lemma burst_bytes_length: "length (fst (burst_bytes sn n s)) = n"
proof (induction n arbitrary: s)
  case 0
  show ?case by simp
next
  case (Suc n)
  obtain x s' where t: "transceive sn 0 s = (x, s')" by (cases "transceive sn 0 s")
  obtain xs s'' where b: "burst_bytes sn n s' = (xs, s'')" by (cases "burst_bytes sn n s'")
  from Suc [of s'] b have "length xs = n" by simp
  then show ?case by (simp add: t b)
qed

text \<open>
  Whatever the sensor is: a poll that finds the motion flag clear has read one byte and
  gives zero deltas; a poll that finds it set has read six bytes and loads the deltas
  from the bytes 2, 3 and 4, 5 of what it read.
\<close>

lemma motion_burst_any_sensor:
  "(case motion_burst sn s of
      ((v, delta_x, delta_y), s') \<Rightarrow>
        if motion v
        then length v = 6 \<and> delta_x = word_cat (v ! 3) (v ! 2) \<and> delta_y = word_cat (v ! 5) (v ! 4)
        else length v = 1 \<and> delta_x = 0 \<and> delta_y = 0)"
proof -
  obtain v0 s4 where first: "transceive sn 0
      (delay_us T_SRAD_MOTBR (snd (transceive sn MOTION_BURST
         (delay_us T_NCS_SCLK (assert_ncs sn s))))) = (v0, s4)"
    by (cases "transceive sn 0
      (delay_us T_SRAD_MOTBR (snd (transceive sn MOTION_BURST
         (delay_us T_NCS_SCLK (assert_ncs sn s)))))")
  obtain vs s5 where rest: "burst_bytes sn 5 s4 = (vs, s5)"
    by (cases "burst_bytes sn 5 s4")
  have len: "length vs = 5"
    using burst_bytes_length [of sn 5 s4] rest by simp
  show ?thesis
    using len by (simp add: motion_burst_def Let_def first rest motion_def load_int16_def)
qed

text \<open>
  Claim C4. Let the sensor shift out \<open>j\<close> while the burst command is sent and then the
  payload \<open>v0, v1, v2, v3, v4, v5\<close>. When the top bit of the status byte \<open>v0\<close> is clear,
  the motion flag is false and both deltas are zero, whatever the other payload bytes
  are: the poll does not read them. When the top bit is set, the poll reads the six
  bytes, \<^verbatim>\<open>delta_x\<close> is the signed 16-bit value with low byte \<open>v2\<close> and high byte \<open>v3\<close>,
  and \<^verbatim>\<open>delta_y\<close> the one with low byte \<open>v4\<close> and high byte \<open>v5\<close>.
\<close>

theorem motion_burst_decode:
  "(case motion_burst scripted_sensor
           \<lparr>trace = tr, dev = j # v0 # v1 # v2 # v3 # v4 # v5 # rest\<rparr> of
      ((v, delta_x, delta_y), s') \<Rightarrow>
        if bit v0 7
        then motion v \<and> v = [v0, v1, v2, v3, v4, v5] \<and>
             sint delta_x = (if uint v3 < 128 then uint v2 + 256 * uint v3
                             else uint v2 + 256 * uint v3 - 65536) \<and>
             sint delta_y = (if uint v5 < 128 then uint v4 + 256 * uint v5
                             else uint v4 + 256 * uint v5 - 65536) \<and>
             dev s' = rest
        else \<not> motion v \<and> v = [v0] \<and> delta_x = 0 \<and> delta_y = 0 \<and>
             dev s' = v1 # v2 # v3 # v4 # v5 # rest)"
proof (cases "bit v0 7")
  case True
  show ?thesis
    unfolding motion_burst_scripted_motion [OF True]
    using True by (simp add: sint_load motion_def top_bit)
next
  case False
  show ?thesis
    unfolding motion_burst_scripted_idle [OF False]
    using False by (simp add: motion_def top_bit)
qed

text \<open>A poll with motion: the bytes \<open>fe ff\<close> are \<open>-2\<close>, the bytes \<open>34 12\<close> are 4660.\<close>

theorem motion_burst_decode_witness:
  "(case motion_burst scripted_sensor
           \<lparr>trace = [], dev = [0, 0x80, 0, 0xfe, 0xff, 0x34, 0x12]\<rparr> of
      ((v, delta_x, delta_y), s') \<Rightarrow> sint delta_x = - 2 \<and> sint delta_y = 4660)"
  using motion_burst_decode [where tr = "[]" and j = 0 and ?v0.0 = "0x80" and ?v1.0 = 0
      and ?v2.0 = "0xfe" and ?v3.0 = "0xff" and ?v4.0 = "0x34" and ?v5.0 = "0x12" and rest = "[]"]
  by (simp split: prod.splits)

section \<open>Properties of the axis accumulators\<close>

lemma update_axes_four:
  "update_axes rnd dx dy scroll [a0, a1, a2, a3] =
     (if scroll
      then [a0, a1, fadd rnd a2 (of_int (sint dx)), fadd rnd a3 (of_int (sint dy))]
      else [fadd rnd a0 (of_int (sint dx)), fadd rnd a1 (of_int (sint dy)), a2, a3])"
  by (simp add: update_axes_def Let_def)

lemma four_elements:
  assumes "length xs = 4"
  shows "xs = [xs ! 0, xs ! 1, xs ! 2, xs ! 3]"
proof -
  from assms obtain a b c d where "xs = [a, b, c, d]"
    by (auto simp: numeral_eq_Suc length_Suc_conv)
  then show ?thesis by simp
qed

lemma scroll_mode_bit: "scroll_mode pind \<longleftrightarrow> \<not> bit pind 3"
  using and_exp_eq_0_iff_not_bit [of pind 3]
  by (simp add: scroll_mode_def SCROLL_BUTTON_def BUTTON_D_def PIND3_def)

text \<open>
  Claim C9. In a tick of the main loop the deltas of the motion poll are added to one
  pair of accumulators. When the scroll pin reads low (the scroll-mode flag is true)
  the wheel accumulators 2 and 3 take them and the pointer accumulators 0 and 1 keep
  their values; when the pin reads high the pointer accumulators take them and the
  wheel accumulators keep their values.
\<close>

theorem deltas_routed_by_scroll_mode:
  assumes len: "length axes = 4"
    and poll: "motion_burst sn s = ((v, delta_x, delta_y), s')"
  shows "snd (main_loop_body rnd sn pind (s, axes)) =
     (if bit pind 3
      then [fadd rnd (axes ! 0) (of_int (sint delta_x)),
            fadd rnd (axes ! 1) (of_int (sint delta_y)), axes ! 2, axes ! 3]
      else [axes ! 0, axes ! 1, fadd rnd (axes ! 2) (of_int (sint delta_x)),
            fadd rnd (axes ! 3) (of_int (sint delta_y))])"
proof -
  have "snd (main_loop_body rnd sn pind (s, axes)) =
        update_axes rnd delta_x delta_y (scroll_mode pind) [axes ! 0, axes ! 1, axes ! 2, axes ! 3]"
    using four_elements [OF len] by (simp add: main_loop_body_def poll)
  then show ?thesis
    by (simp only: update_axes_four scroll_mode_bit) simp
qed

text \<open>
  A tick with the scroll button down and one with it up, on a sensor that reports the
  deltas 3 and 4.
\<close>

theorem deltas_routed_witness:
  "snd (main_loop_body (\<lambda>x. x) scripted_sensor 0xf7
          (\<lparr>trace = [], dev = [0, 0x80, 0, 3, 0, 4, 0]\<rparr>, [10, 20, 30, 40])) = [10, 20, 33, 44] \<and>
   snd (main_loop_body (\<lambda>x. x) scripted_sensor 0xff
          (\<lparr>trace = [], dev = [0, 0x80, 0, 3, 0, 4, 0]\<rparr>, [10, 20, 30, 40])) = [13, 24, 30, 40]"
proof -
  let ?s = "\<lparr>trace = [], dev = [0, 0x80, 0, 3, 0, 4, 0 :: u8]\<rparr>"
  have "bit (0x80 :: u8) 7" by simp
  from motion_burst_scripted_motion [OF this, of "[]" 0 0 3 0 4 0 "[]"]
  obtain v s' where poll: "motion_burst scripted_sensor ?s = ((v, 3, 4), s')"
    by (simp add: word_cat_eq)
  have len: "length [10, 20, 30, 40 :: double] = 4" by simp
  show ?thesis
    using deltas_routed_by_scroll_mode [OF len poll, of "\<lambda>x. x" "0xf7"]
      deltas_routed_by_scroll_mode [OF len poll, of "\<lambda>x. x" "0xff"]
    by (simp add: fadd_def)
qed

subsection \<open>The deltas of \<^verbatim>\<open>get_axes\<close>\<close>

text \<open>\<open>trunc\<close> keeps the sign and drops the fraction: it rounds toward zero.\<close>

lemma trunc_toward_zero: "trunc x = (if 0 \<le> x then 1 else - 1) * \<lfloor>\<bar>x\<bar>\<rfloor>"
  by (simp add: trunc_def ceiling_def)

lemma trunc_of_int: "trunc (of_int k) = k"
  by (simp add: trunc_def)

lemma sint_in_range:
  assumes "- 32768 \<le> k" "k \<le> 32767"
  shows "sint (word_of_int k :: i16) = k"
proof -
  have "sint (word_of_int k :: i16) = (k + 32768) mod 65536 - 32768"
    by (simp add: int_word_sint)
  also have "(k + 32768) mod 65536 = k + 32768"
    using assms by simp
  finally show ?thesis by simp
qed

lemma to_int16_Some:
  "to_int16 (of_int k) = Some w \<longleftrightarrow> - 32768 \<le> k \<and> k \<le> 32767 \<and> w = word_of_int k"
  by (auto simp: to_int16_def trunc_of_int Let_def)

lemma to_int16_None:
  "to_int16 (of_int k) = None \<longleftrightarrow> k < - 32768 \<or> 32767 < k"
  by (auto simp: to_int16_def trunc_of_int Let_def)

lemma get_axes_four:
  "get_axes rnd [a0, a1, a2, a3] =
     (case (to_int16 (of_int (trunc (fmul rnd (POINTER_SENSITIVITY rnd) a0))),
            to_int16 (of_int (trunc (fmul rnd (POINTER_SENSITIVITY rnd) (- a1)))),
            to_int16 (of_int (trunc (fmul rnd (WHEEL_SENSITIVITY_X rnd) a2))),
            to_int16 (of_int (trunc (fmul rnd (WHEEL_SENSITIVITY_Y rnd) a3)))) of
        (Some a, Some b, Some c, Some d) \<Rightarrow>
           Some (list_ex (\<lambda>v. v \<noteq> 0) [a, b, c, d], [a, b, c, d],
             [fdiv rnd (fst (modf (fmul rnd (POINTER_SENSITIVITY rnd) a0))) (POINTER_SENSITIVITY rnd),
              fdiv rnd (- fst (modf (fmul rnd (POINTER_SENSITIVITY rnd) (- a1)))) (POINTER_SENSITIVITY rnd),
              fdiv rnd (fst (modf (fmul rnd (WHEEL_SENSITIVITY_X rnd) a2))) (WHEEL_SENSITIVITY_X rnd),
              fdiv rnd (fst (modf (fmul rnd (WHEEL_SENSITIVITY_Y rnd) a3))) (WHEEL_SENSITIVITY_Y rnd)])
      | _ \<Rightarrow> None)"
  by (simp add: get_axes_def Let_def modf_def split: option.splits)

lemma to_int16_of_int:
  "to_int16 (of_int k) = (if - 32768 \<le> k \<and> k \<le> 32767 then Some (word_of_int k) else None)"
  by (simp add: to_int16_def trunc_of_int)

lemma get_axes_SomeD:
  assumes g: "get_axes rnd [a0, a1, a2, a3] = Some (q, p, axes')"
  shows "map sint p = map trunc (scaled_axes rnd [a0, a1, a2, a3])"
    and "\<forall>x \<in> set (scaled_axes rnd [a0, a1, a2, a3]). - 32768 \<le> trunc x \<and> trunc x \<le> 32767"
    and "q \<longleftrightarrow> (\<exists>d \<in> set p. d \<noteq> 0)"
    and "axes' =
      [fdiv rnd (fst (modf (fmul rnd (POINTER_SENSITIVITY rnd) a0))) (POINTER_SENSITIVITY rnd),
       fdiv rnd (- fst (modf (fmul rnd (POINTER_SENSITIVITY rnd) (- a1)))) (POINTER_SENSITIVITY rnd),
       fdiv rnd (fst (modf (fmul rnd (WHEEL_SENSITIVITY_X rnd) a2))) (WHEEL_SENSITIVITY_X rnd),
       fdiv rnd (fst (modf (fmul rnd (WHEEL_SENSITIVITY_Y rnd) a3))) (WHEEL_SENSITIVITY_Y rnd)]"
proof -
  let ?x0 = "fmul rnd (POINTER_SENSITIVITY rnd) a0"
  let ?x1 = "fmul rnd (POINTER_SENSITIVITY rnd) (- a1)"
  let ?x2 = "fmul rnd (WHEEL_SENSITIVITY_X rnd) a2"
  let ?x3 = "fmul rnd (WHEEL_SENSITIVITY_Y rnd) a3"
  from g obtain b0 b1 b2 b3 where
    b: "to_int16 (of_int (trunc ?x0)) = Some b0" "to_int16 (of_int (trunc ?x1)) = Some b1"
       "to_int16 (of_int (trunc ?x2)) = Some b2" "to_int16 (of_int (trunc ?x3)) = Some b3"
    and p: "p = [b0, b1, b2, b3]"
    and q: "q = list_ex (\<lambda>v. v \<noteq> 0) [b0, b1, b2, b3]"
    and r: "axes' =
      [fdiv rnd (fst (modf ?x0)) (POINTER_SENSITIVITY rnd),
       fdiv rnd (- fst (modf ?x1)) (POINTER_SENSITIVITY rnd),
       fdiv rnd (fst (modf ?x2)) (WHEEL_SENSITIVITY_X rnd),
       fdiv rnd (fst (modf ?x3)) (WHEEL_SENSITIVITY_Y rnd)]"
    unfolding get_axes_four by (auto split: option.splits)
  from b have in_range:
    "- 32768 \<le> trunc ?x0 \<and> trunc ?x0 \<le> 32767" "- 32768 \<le> trunc ?x1 \<and> trunc ?x1 \<le> 32767"
    "- 32768 \<le> trunc ?x2 \<and> trunc ?x2 \<le> 32767" "- 32768 \<le> trunc ?x3 \<and> trunc ?x3 \<le> 32767"
    and w: "b0 = word_of_int (trunc ?x0)" "b1 = word_of_int (trunc ?x1)"
      "b2 = word_of_int (trunc ?x2)" "b3 = word_of_int (trunc ?x3)"
    by (simp_all add: to_int16_Some)
  show "map sint p = map trunc (scaled_axes rnd [a0, a1, a2, a3])"
    using in_range by (simp add: p w scaled_axes_def sint_in_range)
  show "\<forall>x \<in> set (scaled_axes rnd [a0, a1, a2, a3]). - 32768 \<le> trunc x \<and> trunc x \<le> 32767"
    using in_range by (simp add: scaled_axes_def)
  show "q \<longleftrightarrow> (\<exists>d \<in> set p. d \<noteq> 0)"
    by (simp add: q p)
  show "axes' =
      [fdiv rnd (fst (modf ?x0)) (POINTER_SENSITIVITY rnd),
       fdiv rnd (- fst (modf ?x1)) (POINTER_SENSITIVITY rnd),
       fdiv rnd (fst (modf ?x2)) (WHEEL_SENSITIVITY_X rnd),
       fdiv rnd (fst (modf ?x3)) (WHEEL_SENSITIVITY_Y rnd)]"
    by (rule r)
qed

lemma get_axes_NoneD:
  assumes g: "get_axes rnd [a0, a1, a2, a3] = None"
  shows "\<exists>x \<in> set (scaled_axes rnd [a0, a1, a2, a3]). trunc x < - 32768 \<or> 32767 < trunc x"
  using g unfolding get_axes_four scaled_axes_def
  by (auto simp: to_int16_None split: option.splits)

text \<open>
  Claim C6, as the code has it. \<^verbatim>\<open>get_axes\<close> is defined exactly when the integer part
  (truncated toward zero) of each of the four scaled accumulated values lies in the
  signed 16-bit range, and then each emitted delta is that integer part, and the value
  returned tells whether one of them is not zero. There is no clamp: when an integer
  part lies outside the range the conversion is undefined and no delta is promised.
\<close>

theorem get_axes_emits_integer_part:
  assumes len: "length axes = 4"
  shows "case get_axes rnd axes of
           None \<Rightarrow> \<exists>x \<in> set (scaled_axes rnd axes). trunc x < - 32768 \<or> 32767 < trunc x
         | Some (q, p, axes') \<Rightarrow>
             map sint p = map trunc (scaled_axes rnd axes) \<and>
             (\<forall>x \<in> set (scaled_axes rnd axes). - 32768 \<le> trunc x \<and> trunc x \<le> 32767) \<and>
             (q \<longleftrightarrow> (\<exists>d \<in> set p. d \<noteq> 0))"
proof -
  obtain a0 a1 a2 a3 where ax: "axes = [a0, a1, a2, a3]"
    using four_elements [OF len] by blast
  show ?thesis
  proof (cases "get_axes rnd axes")
    case None
    then have g: "get_axes rnd [a0, a1, a2, a3] = None" by (simp add: ax)
    show ?thesis
      unfolding ax g using get_axes_NoneD [OF g] by simp
  next
    case (Some r)
    obtain q p axes' where r: "r = (q, p, axes')" by (cases r)
    from Some r have g: "get_axes rnd [a0, a1, a2, a3] = Some (q, p, axes')"
      by (simp add: ax)
    show ?thesis
      unfolding ax g using get_axes_SomeD(1-3) [OF g] by simp
  qed
qed

text \<open>
  With exact arithmetic and the accumulators 100, \<open>-250\<close>, 10 and \<open>-3\<close> the scaled
  values are 1.2, 3, 3.5 and \<open>-1.05\<close>: the deltas are 1, 3, 3 and \<open>-1\<close>.
\<close>

theorem get_axes_emits_witness:
  "length [100, - 250, 10, - 3 :: double] = 4 \<and>
   get_axes (\<lambda>x. x) [100, - 250, 10, - 3] =
     Some (True, [1, 3, 3, - 1], [50 / 3, 0, 10 / 7, - (1 / 7)]) \<and>
   map sint [1, 3, 3, - 1 :: i16] = map trunc (scaled_axes (\<lambda>x. x) [100, - 250, 10, - 3]) \<and>
   map trunc (scaled_axes (\<lambda>x. x) [100, - 250, 10, - 3]) = [1, 3, 3, - 1]"
proof -
  have len: "length [100, - 250, 10, - 3 :: double] = 4" by simp
  have t: "trunc (6 / 5) = 1" "trunc 3 = 3" "trunc (7 / 2) = 3" "trunc (- (21 / 20)) = - 1"
    by (simp_all add: trunc_def floor_eq_iff ceiling_eq_iff)
  have sc: "map trunc (scaled_axes (\<lambda>x. x) [100, - 250, 10, - 3]) = [1, 3, 3, - 1]"
    by (simp add: scaled_axes_def fmul_def POINTER_SENSITIVITY_def WHEEL_SENSITIVITY_X_def
        WHEEL_SENSITIVITY_Y_def t)
  have c: "to_int16 1 = Some 1" "to_int16 3 = Some 3" "to_int16 (- 1) = Some (- 1)"
    using to_int16_of_int [of 1] to_int16_of_int [of 3] to_int16_of_int [of "- 1"]
    by simp_all
  have g: "get_axes (\<lambda>x. x) [100, - 250, 10, - 3] =
      Some (True, [1, 3, 3, - 1], [50 / 3, 0, 10 / 7, - (1 / 7)])"
    by (simp add: get_axes_four fmul_def fdiv_def modf_def POINTER_SENSITIVITY_def
        WHEEL_SENSITIVITY_X_def WHEEL_SENSITIVITY_Y_def t c)
  from get_axes_emits_integer_part [OF len, of "\<lambda>x. x"] g
  have "map sint [1, 3, 3, - 1 :: i16] = map trunc (scaled_axes (\<lambda>x. x) [100, - 250, 10, - 3])"
    by simp
  with g len sc show ?thesis by simp
qed

text \<open>
  The claim fails where it speaks of a clamp. Four updates in scroll mode with the
  delta 25000 and no report in between bring the wheel accumulator to 100000 (every
  operation is exact on these values); the scaled value is 35000, above 32767, and
  \<^verbatim>\<open>get_axes\<close> emits no defined delta, where the claim asks for 32767.
\<close>

theorem get_axes_no_clamp_counterexample:
  "get_axes (\<lambda>x. x) ((update_axes (\<lambda>x. x) 25000 0 True ^^ 4) axes_init) = None"
  by (simp add: numeral_eq_Suc update_axes_def axes_init_def fadd_def fmul_def fdiv_def Let_def
      get_axes_def modf_def to_int16_def trunc_def WHEEL_SENSITIVITY_X_def
      WHEEL_SENSITIVITY_Y_def POINTER_SENSITIVITY_def)

subsection \<open>Exact arithmetic: the carried remainder\<close>




























subsection \<open>The report callback\<close>

text \<open>
  The buttons of a report and the debounce state after it are those of the debounce
  step, whatever the axes do.
\<close>

lemma report_buttons_debounced:
  assumes "CreateHIDReport_mouse T rnd pind (axes, ds) = Some ((buttons, p), r, (axes', ds'))"
  shows "\<exists>accepted. debounce T (read_buttons pind) ds = (buttons, accepted, ds')"
  using assms
  by (auto simp: CreateHIDReport_mouse_def split: option.splits prod.splits)

end
